theory Spec2Isabelle
  imports Main "HOL-Library.Word"
begin

section \<open>The in-memory file store of \<^verbatim>\<open>mem_io.c\<close>\<close>

text \<open>
  \<^verbatim>\<open>mem_io.c\<close> keeps a global singly linked list \<^verbatim>\<open>files\<close> of heap-allocated
  \<^verbatim>\<open>File\<close> structs and hands pointers to them out as \<^verbatim>\<open>FILE*\<close> handles. The structs
  are shared between the list and the handles, and \<^verbatim>\<open>write_file\<close> relinks them, so the
  model keeps an explicit store:
  \<^item> a pointer is an \<open>addr option\<close>, \<open>None\<close> being \<^verbatim>\<open>NULL\<close>;
  \<^item> \<open>heap\<close> holds the \<^verbatim>\<open>File\<close> structs that \<^verbatim>\<open>malloc\<close> has handed out, the address of
    a struct being its index (no struct is ever freed by the code);
  \<^item> \<open>bufs\<close> holds the live \<^verbatim>\<open>char\<close> arrays (the \<^verbatim>\<open>contents\<close> the callers pass
    in), by address; \<^verbatim>\<open>free\<close> removes an array;
  \<^item> \<open>avail\<close> is the number of \<^verbatim>\<open>File\<close> structs \<^verbatim>\<open>malloc\<close> can still deliver, so
    that the \<^verbatim>\<open>malloc\<close> failure branch of \<^verbatim>\<open>write_file\<close> is a branch of the model.

  \<^verbatim>\<open>size_t\<close> is the type parameter of the records; the operations take it to be an
  unsigned machine word \<open>'w word\<close> of any width \<open>'w\<close>; \<^verbatim>\<open>long\<close>
  is taken to have the same width. A \<^verbatim>\<open>long\<close> argument is an \<open>int\<close>, and its conversion
  to \<^verbatim>\<open>size_t\<close> is \<open>word_of_int\<close> (the value modulo \<open>2 ^ LENGTH('w)\<close>).

  Behaviour that C leaves undefined is a \<open>fault\<close> result, so that every dereference of
  the source is a branch of the model. The model names the field \<^verbatim>\<open>size\<close> \<open>size_f\<close>
  and the field \<^verbatim>\<open>next\<close> \<open>next_f\<close>, since \<open>size\<close> is a constant of HOL and
  \<open>next\<close> a keyword of Isar.
\<close>

type_synonym addr = nat

record 'size_t File =
  name :: string
  buffer :: "addr option"
  size_f :: 'size_t
  cursor :: 'size_t
  next_f :: "addr option"

record 'size_t state =
  heap :: "'size_t File list"
  files :: "addr option"
  bufs :: "addr \<rightharpoonup> char list"
  avail :: nat

datatype fault =
    NullDeref      \<comment> \<open>a \<^verbatim>\<open>NULL\<close> pointer is dereferenced\<close>
  | BadPointer     \<comment> \<open>a pointer to no live object is dereferenced\<close>
  | OutOfBounds    \<comment> \<open>a \<^verbatim>\<open>char\<close> array is read beyond its end\<close>
  | BadFree        \<comment> \<open>\<^verbatim>\<open>free\<close> of a pointer to no live array\<close>
  | NameOverflow   \<comment> \<open>\<^verbatim>\<open>strcpy\<close> beyond the 32 bytes of \<^verbatim>\<open>name\<close>\<close>

text \<open>The origin of a seek: the three macros of \<^verbatim>\<open>stdio.h\<close> that the \<^verbatim>\<open>switch\<close> of
  \<^verbatim>\<open>fSeek\<close> names, and any other \<^verbatim>\<open>int\<close>, for which the \<^verbatim>\<open>switch\<close> has no case.\<close>

datatype origin = SEEK_SET | SEEK_CUR | SEEK_END | SEEK_other

subsection \<open>Memory\<close>

definition upd_file :: "'w::len word state \<Rightarrow> addr \<Rightarrow> 'w word File \<Rightarrow> 'w word state" where
  "upd_file s p f = s\<lparr>heap := (heap s)[p := f]\<rparr>"

text \<open>\<^verbatim>\<open>malloc(sizeof(File))\<close>: \<^verbatim>\<open>NULL\<close> when nothing is left, a fresh struct otherwise. The
  contents of the fresh struct are indeterminate in C; \<^verbatim>\<open>write_file\<close> writes every field
  before it reads it.\<close>

definition malloc :: "'w::len word state \<Rightarrow> addr option \<times> 'w word state" where
  "malloc s =
     (if avail s = 0 then (None, s)
      else (Some (length (heap s)),
            s\<lparr>heap := heap s @ [\<lparr>name = [], buffer = None, size_f = 0, cursor = 0, next_f = None\<rparr>],
              avail := avail s - 1\<rparr>))"

definition free :: "'w::len word state \<Rightarrow> addr \<Rightarrow> fault + 'w word state" where
  "free s b = (if bufs s b = None then Inl BadFree else Inr (s\<lparr>bufs := (bufs s)(b := None)\<rparr>))"

text \<open>The source of \<^verbatim>\<open>memcpy(buffer, file->buffer + file->cursor, size)\<close> and of
  \<^verbatim>\<open>file->buffer[file->cursor]\<close>: \<open>n\<close> bytes at offset \<open>i\<close> of the array at \<open>b\<close>.\<close>

definition read_bytes :: "'w::len word state \<Rightarrow> addr option \<Rightarrow> nat \<Rightarrow> nat \<Rightarrow> fault + char list" where
  "read_bytes s b i n =
     (case b of
        None \<Rightarrow> Inl NullDeref
      | Some a \<Rightarrow>
          (case bufs s a of
             None \<Rightarrow> Inl BadPointer
           | Some cs \<Rightarrow> if i + n \<le> length cs then Inr (take n (drop i cs)) else Inl OutOfBounds))"

subsection \<open>\<^verbatim>\<open>fOpen\<close>\<close>

text \<open>The \<^verbatim>\<open>while (filePtr != NULL)\<close> loop of \<^verbatim>\<open>fOpen\<close>. Nothing bounds the walk along
  \<^verbatim>\<open>next\<close>, so the loop is a partial function and \<open>None\<close> is "does not return".\<close>

partial_function (option) fOpen_loop ::
  "'w::len word state \<Rightarrow> string \<Rightarrow> addr option \<Rightarrow> (fault + addr option \<times> 'w word state) option" where
  "fOpen_loop s filename filePtr =
     (case filePtr of
        None \<Rightarrow> Some (Inr (None, s))
      | Some p \<Rightarrow>
          if p < length (heap s) then
            (if name (heap s ! p) = filename
             then Some (Inr (Some p, upd_file s p ((heap s ! p)\<lparr>cursor := 0\<rparr>)))
             else fOpen_loop s filename (next_f (heap s ! p)))
          else Some (Inl BadPointer))"

definition fOpen ::
  "'w::len word state \<Rightarrow> string \<Rightarrow> string \<Rightarrow> (fault + addr option \<times> 'w word state) option" where
  "fOpen s filename mode = fOpen_loop s filename (files s)"

subsection \<open>\<^verbatim>\<open>write_file\<close>\<close>

text \<open>Lines 35 to 44 of \<^verbatim>\<open>write_file\<close>, which both the new entry and the forced
  overwrite reach with \<^verbatim>\<open>file\<close> pointing to a struct: the old array is freed, the new
  one installed, and the struct is linked in front of \<^verbatim>\<open>files\<close>.\<close>

definition write_file_install ::
  "'w::len word state \<Rightarrow> addr \<Rightarrow> addr option \<Rightarrow> 'w word \<Rightarrow> fault + int \<times> 'w word state" where
  "write_file_install s p contents len =
     (case (case buffer (heap s ! p) of None \<Rightarrow> Inr s | Some b \<Rightarrow> free s b) of
        Inl e \<Rightarrow> Inl e
      | Inr s' \<Rightarrow>
          Inr (1, (upd_file s' p
                     ((heap s' ! p)\<lparr>buffer := contents, size_f := len, cursor := 0,
                                    next_f := files s'\<rparr>))\<lparr>files := Some p\<rparr>))"

definition write_file ::
  "'w::len word state \<Rightarrow> string \<Rightarrow> addr option \<Rightarrow> 'w word \<Rightarrow> int \<Rightarrow> (fault + int \<times> 'w word state) option" where
  "write_file s path contents len forceOverwrite =
     (case fOpen s path [] of
        None \<Rightarrow> None
      | Some (Inl e) \<Rightarrow> Some (Inl e)
      | Some (Inr (Some p, s1)) \<Rightarrow>
          if forceOverwrite = 0 then Some (Inr (1, s1))
          else Some (write_file_install s1 p contents len)
      | Some (Inr (None, s1)) \<Rightarrow>
          (case malloc s1 of
             (None, s2) \<Rightarrow> Some (Inr (0, s2))
           | (Some p, s2) \<Rightarrow>
               if 32 \<le> length path then Some (Inl NameOverflow)
               else Some (write_file_install
                            (upd_file s2 p ((heap s2 ! p)\<lparr>buffer := None, name := path\<rparr>))
                            p contents len)))"

subsection \<open>The stream operations\<close>

definition fClose :: "'w::len word state \<Rightarrow> addr option \<Rightarrow> fault + int \<times> 'w word state" where
  "fClose s stream =
     (case stream of
        None \<Rightarrow> Inr (- 1, s)
      | Some p \<Rightarrow>
          if p < length (heap s) then Inr (0, upd_file s p ((heap s ! p)\<lparr>cursor := 0\<rparr>))
          else Inl BadPointer)"

definition fSeek :: "'w::len word state \<Rightarrow> addr option \<Rightarrow> int \<Rightarrow> origin \<Rightarrow> fault + int \<times> 'w word state" where
  "fSeek s stream offset origin =
     (if origin = SEEK_other then Inr (0, s)
      else
        (case stream of
           None \<Rightarrow> Inl NullDeref
         | Some p \<Rightarrow>
             if p < length (heap s) then
               (let file = heap s ! p in
                Inr (0, upd_file s p
                   (case origin of
                      SEEK_SET \<Rightarrow> file\<lparr>cursor := word_of_int offset\<rparr>
                    | SEEK_CUR \<Rightarrow> file\<lparr>cursor := cursor file + word_of_int offset\<rparr>
                    | SEEK_END \<Rightarrow> file\<lparr>cursor := size_f file - word_of_int offset\<rparr>
                    | SEEK_other \<Rightarrow> file)))
             else Inl BadPointer))"

definition fTell :: "'w::len word state \<Rightarrow> addr option \<Rightarrow> fault + int" where
  "fTell s stream =
     (case stream of
        None \<Rightarrow> Inr 0
      | Some p \<Rightarrow> if p < length (heap s) then Inr (sint (cursor (heap s ! p))) else Inl BadPointer)"

text \<open>The loop of \<^verbatim>\<open>fRead\<close>; \<open>out\<close> is what has been copied to \<^verbatim>\<open>ptr\<close> so far.\<close>

function fRead_loop ::
  "'w::len word state \<Rightarrow> addr \<Rightarrow> 'w word \<Rightarrow> 'w word \<Rightarrow> char list \<Rightarrow> 'w word
     \<Rightarrow> fault + 'w word \<times> char list \<times> 'w word state" where
  "fRead_loop s p sz count out readCount =
     (if count = 0 then Inr (readCount, out, s)
      else
        (let file = heap s ! p in
         if size_f file - cursor file > sz then
           (case read_bytes s (buffer file) (unat (cursor file)) (unat sz) of
              Inl e \<Rightarrow> Inl e
            | Inr bytes \<Rightarrow>
                fRead_loop (upd_file s p (file\<lparr>cursor := cursor file + sz\<rparr>)) p sz (count - 1)
                  (out @ bytes) (readCount + 1))
         else Inr (readCount, out, s)))"
  by pat_completeness auto
termination
  by (relation "measure (\<lambda>(s, p, sz, count, out, readCount). unat count)")
     (auto simp: unat_minus_one unat_gt_0)

definition fRead ::
  "'w::len word state \<Rightarrow> 'w word \<Rightarrow> 'w word \<Rightarrow> addr option
     \<Rightarrow> fault + 'w word \<times> char list \<times> 'w word state" where
  "fRead s sz count stream =
     (case stream of
        None \<Rightarrow> Inr (- 1, [], s)
      | Some p \<Rightarrow> if p < length (heap s) then fRead_loop s p sz count [] 0 else Inl BadPointer)"

definition fWrite :: "'w::len word state \<Rightarrow> char list \<Rightarrow> 'w word \<Rightarrow> 'w word \<Rightarrow> addr option \<Rightarrow> 'w word" where
  "fWrite s ptr sz count stream = 0"

definition fRewind :: "'w::len word state \<Rightarrow> addr option \<Rightarrow> fault + 'w word state" where
  "fRewind s stream =
     (case stream of
        None \<Rightarrow> Inr s
      | Some p \<Rightarrow>
          if p < length (heap s) then Inr (upd_file s p ((heap s ! p)\<lparr>cursor := 0\<rparr>))
          else Inl BadPointer)"

text \<open>The loop of \<^verbatim>\<open>fGets\<close>; \<open>out\<close> is what has been stored through \<^verbatim>\<open>ptr\<close> so far, so
  \<^verbatim>\<open>ptr == str\<close> is \<open>out = []\<close>. \<open>n\<close> is a C \<^verbatim>\<open>int\<close>; it only counts down from a positive
  value.\<close>

function fGets_loop ::
  "'w::len word state \<Rightarrow> addr \<Rightarrow> int \<Rightarrow> char list \<Rightarrow> fault + char list \<times> 'w word state" where
  "fGets_loop s p n out =
     (let file = heap s ! p in
      if n > 0 \<and> cursor file < size_f file then
        (case read_bytes s (buffer file) (unat (cursor file)) 1 of
           Inl e \<Rightarrow> Inl e
         | Inr bytes \<Rightarrow>
             (let s' = upd_file s p (file\<lparr>cursor := cursor file + 1\<rparr>);
                  out' = out @ bytes
              in if bytes = [CHR 0x0A] then Inr (out', s')
                 else fGets_loop s' p (n - 1) out'))
      else Inr (out, s))"
  by pat_completeness auto
termination
  by (relation "measure (\<lambda>(s, p, n, out). nat n)") auto

text \<open>\<^verbatim>\<open>fGets\<close> returns \<^verbatim>\<open>NULL\<close> (\<open>None\<close>) or \<^verbatim>\<open>str\<close>; in the second case the result
  carries the bytes that were stored to \<^verbatim>\<open>str[0]\<close>, \<^verbatim>\<open>str[1]\<close>, ... in this call,
  the terminator included.\<close>

definition fGets :: "'w::len word state \<Rightarrow> int \<Rightarrow> addr option \<Rightarrow> fault + char list option \<times> 'w word state" where
  "fGets s n stream =
     (case stream of
        None \<Rightarrow> Inr (None, s)
      | Some p \<Rightarrow>
          if p < length (heap s) then
            (case fGets_loop s p n [] of
               Inl e \<Rightarrow> Inl e
             | Inr (out, s') \<Rightarrow> if out = [] then Inr (None, s') else Inr (Some (out @ [CHR 0x00]), s'))
          else Inl BadPointer)"

subsection \<open>Example states\<close>

text \<open>A 32-bit store with two arrays, \<open>''hello''\<close> at address 0 and \<open>''0123456789''\<close> at
  address 1, and the states that the calls of the examples below lead to.\<close>

definition ex_init :: "32 word state" where
  "ex_init = \<lparr>heap = [], files = None, bufs = [0 \<mapsto> ''hello'', 1 \<mapsto> ''0123456789''], avail = 2\<rparr>"

definition ex_a :: "32 word state" where
  "ex_a = \<lparr>heap = [\<lparr>name = ''a'', buffer = Some 0, size_f = 5, cursor = 0, next_f = None\<rparr>],
           files = Some 0, bufs = [0 \<mapsto> ''hello'', 1 \<mapsto> ''0123456789''], avail = 1\<rparr>"

definition ex_a2 :: "32 word state" where
  "ex_a2 = \<lparr>heap = [\<lparr>name = ''a'', buffer = Some 0, size_f = 5, cursor = 2, next_f = None\<rparr>],
           files = Some 0, bufs = [0 \<mapsto> ''hello'', 1 \<mapsto> ''0123456789''], avail = 1\<rparr>"

definition ex_cyc :: "32 word state" where
  "ex_cyc = \<lparr>heap = [\<lparr>name = ''a'', buffer = Some 1, size_f = 10, cursor = 0, next_f = Some 0\<rparr>],
           files = Some 0, bufs = [1 \<mapsto> ''0123456789''], avail = 1\<rparr>"

definition ex_b :: "32 word state" where
  "ex_b = \<lparr>heap = [\<lparr>name = ''a'', buffer = Some 0, size_f = 5, cursor = 0, next_f = None\<rparr>,
                   \<lparr>name = ''b'', buffer = Some 1, size_f = 10, cursor = 0, next_f = Some 0\<rparr>],
           files = Some 1, bufs = [0 \<mapsto> ''hello'', 1 \<mapsto> ''0123456789''], avail = 0\<rparr>"

definition ex_a4 :: "32 word state" where
  "ex_a4 = \<lparr>heap = [\<lparr>name = ''a'', buffer = Some 0, size_f = 5, cursor = 4, next_f = None\<rparr>],
           files = Some 0, bufs = [0 \<mapsto> ''hello'', 1 \<mapsto> ''0123456789''], avail = 1\<rparr>"

definition ex_wild :: "32 word state" where
  "ex_wild = \<lparr>heap = [\<lparr>name = ''a'', buffer = Some 0, size_f = 5, cursor = 4294967295, next_f = None\<rparr>],
           files = Some 0, bufs = [0 \<mapsto> ''hello'', 1 \<mapsto> ''0123456789''], avail = 1\<rparr>"

text \<open>\<open>ex_cyc\<close> after nine bytes are read, and a store with a third array, where \<open>a\<close>
  is registered and then overwritten with the third array.\<close>

definition ex_cyc9 :: "32 word state" where
  "ex_cyc9 = \<lparr>heap = [\<lparr>name = ''a'', buffer = Some 1, size_f = 10, cursor = 9, next_f = Some 0\<rparr>],
           files = Some 0, bufs = [1 \<mapsto> ''0123456789''], avail = 1\<rparr>"

definition ex3_init :: "32 word state" where
  "ex3_init = \<lparr>heap = [], files = None,
              bufs = [0 \<mapsto> ''hello'', 1 \<mapsto> ''0123456789'', 2 \<mapsto> ''xy''], avail = 2\<rparr>"

definition ex3_a :: "32 word state" where
  "ex3_a = \<lparr>heap = [\<lparr>name = ''a'', buffer = Some 0, size_f = 5, cursor = 0, next_f = None\<rparr>],
            files = Some 0,
            bufs = [0 \<mapsto> ''hello'', 1 \<mapsto> ''0123456789'', 2 \<mapsto> ''xy''], avail = 1\<rparr>"

definition ex3_f :: "32 word state" where
  "ex3_f = \<lparr>heap = [\<lparr>name = ''a'', buffer = Some 2, size_f = 2, cursor = 0, next_f = Some 0\<rparr>],
            files = Some 0, bufs = [1 \<mapsto> ''0123456789'', 2 \<mapsto> ''xy''], avail = 1\<rparr>"

section \<open>Properties\<close>

lemmas ex_defs = ex_init_def ex_a_def ex_a2_def ex_a4_def ex_wild_def ex_cyc_def ex_b_def
lemmas ex3_defs = ex_cyc9_def ex3_init_def ex3_a_def ex3_f_def
lemmas op_defs = write_file_def fOpen_def malloc_def upd_file_def write_file_install_def free_def
  fSeek_def fTell_def fClose_def fRead_def fRewind_def fGets_def read_bytes_def Let_def

declare fOpen_loop.simps [code]

declare fRead_loop.simps [simp del] fGets_loop.simps [simp del]

lemma upd_file_same: "upd_file s p (heap s ! p) = s"
  by (simp add: upd_file_def)

lemma upd_file_upd: "upd_file (upd_file s p f) p g = upd_file s p g"
  by (simp add: upd_file_def)

lemma heap_upd_file: "p < length (heap s) \<Longrightarrow> heap (upd_file s p f) ! p = f"
  by (simp add: upd_file_def)

lemma length_heap_upd_file: "length (heap (upd_file s p f)) = length (heap s)"
  by (simp add: upd_file_def)

lemma bufs_upd_file: "bufs (upd_file s p f) = bufs s"
  by (simp add: upd_file_def)

lemma read_bytes_upd_file: "read_bytes (upd_file s p f) b i n = read_bytes s b i n"
  by (simp add: read_bytes_def upd_file_def split: option.splits)

subsection \<open>The loop of \<^verbatim>\<open>fOpen\<close>\<close>

lemma fOpen_loop_result:
  "fOpen_loop s filename q = Some r \<Longrightarrow>
     r = Inl BadPointer \<or> r = Inr (None, s) \<or>
     (\<exists>p. p < length (heap s) \<and> name (heap s ! p) = filename
          \<and> r = Inr (Some p, upd_file s p ((heap s ! p)\<lparr>cursor := 0\<rparr>)))"
  by (erule fOpen_loop.raw_induct [rotated]) (auto split: option.splits if_splits)

lemma fOpen_loop_diverges:
  assumes C: "\<And>q. q \<in> C \<Longrightarrow> q < length (heap s) \<and> name (heap s ! q) \<noteq> filename
                       \<and> (\<exists>q'\<in>C. next_f (heap s ! q) = Some q')"
    and p: "p \<in> C"
  shows "fOpen_loop s filename (Some p) = None"
proof -
  have "fOpen_loop s' f' q = Some r \<Longrightarrow> s' = s \<and> f' = filename \<longrightarrow> q \<notin> Some ` C" for s' f' q r
  proof (erule fOpen_loop.raw_induct [rotated], goal_cases)
    case (1 fOpen_loop' s' f' q r)
    show ?case
    proof (intro impI notI)
      assume eq: "s' = s \<and> f' = filename" and "q \<in> Some ` C"
      then obtain a where a: "q = Some a" "a \<in> C" by auto
      from C [OF a(2)] obtain a' where a': "a < length (heap s)" "name (heap s ! a) \<noteq> filename"
        "a' \<in> C" "next_f (heap s ! a) = Some a'" by auto
      from 1(2) a a' eq have "fOpen_loop' s filename (Some a') = Some r" by simp
      from 1(1) [OF this] a'(3) show False by auto
    qed
  qed
  from this [of s filename "Some p"] p have "fOpen_loop s filename (Some p) \<noteq> Some r" for r
    by blast
  then show ?thesis by (cases "fOpen_loop s filename (Some p)") auto
qed

subsection \<open>The loop of \<^verbatim>\<open>fRead\<close>\<close>

text \<open>What the loop of \<open>fRead\<close> has done when it returns.\<close>

lemma fRead_loop_Inr:
  "fRead_loop s p sz count out rc = Inr (k, out', s') \<Longrightarrow> p < length (heap s) \<Longrightarrow>
   \<exists>j\<le>unat count.
      k = rc + of_nat j
    \<and> s' = upd_file s p ((heap s ! p)\<lparr>cursor := cursor (heap s ! p) + of_nat j * sz\<rparr>)
    \<and> length out' = length out + j * unat sz
    \<and> (\<forall>i<j. sz < size_f (heap s ! p) - (cursor (heap s ! p) + of_nat i * sz))
    \<and> (j = unat count \<or> \<not> sz < size_f (heap s ! p) - (cursor (heap s ! p) + of_nat j * sz))"
proof (induction s p sz count out rc rule: fRead_loop.induct)
  case (1 s p sz count out rc)
  let ?f = "heap s ! p"
  show ?case
  proof (cases "count = 0 \<or> \<not> sz < size_f ?f - cursor ?f")
    case True
    with "1.prems" have "k = rc" "out' = out" "s' = s"
      by (auto simp: fRead_loop.simps [of s p sz count] Let_def split: if_splits)
    with True show ?thesis
      by (intro exI [of _ 0]) (auto simp: upd_file_same)
  next
    case False
    then have c: "count \<noteq> 0" and g: "sz < size_f ?f - cursor ?f" by auto
    from "1.prems"(1) c g obtain bytes where
      rb: "read_bytes s (buffer ?f) (unat (cursor ?f)) (unat sz) = Inr bytes"
      and rec: "fRead_loop (upd_file s p (?f\<lparr>cursor := cursor ?f + sz\<rparr>)) p sz (count - 1)
                 (out @ bytes) (rc + 1) = Inr (k, out', s')"
      by (auto simp: fRead_loop.simps [of s p sz count] Let_def split: sum.splits)
    have lb: "length bytes = unat sz"
      using rb by (auto simp: read_bytes_def split: option.splits if_splits)
    let ?s1 = "upd_file s p (?f\<lparr>cursor := cursor ?f + sz\<rparr>)"
    have p1: "p < length (heap ?s1)" using "1.prems"(2) by (simp add: length_heap_upd_file)
    from "1.IH" [OF c refl g rb rec p1] obtain j where j:
      "j \<le> unat (count - 1)" "k = rc + 1 + of_nat j"
      "s' = upd_file ?s1 p ((heap ?s1 ! p)\<lparr>cursor := cursor (heap ?s1 ! p) + of_nat j * sz\<rparr>)"
      "length out' = length (out @ bytes) + j * unat sz"
      "\<forall>i<j. sz < size_f (heap ?s1 ! p) - (cursor (heap ?s1 ! p) + of_nat i * sz)"
      "j = unat (count - 1) \<or> \<not> sz < size_f (heap ?s1 ! p) - (cursor (heap ?s1 ! p) + of_nat j * sz)"
      by blast
    have h1: "heap ?s1 ! p = ?f\<lparr>cursor := cursor ?f + sz\<rparr>"
      using "1.prems"(2) by (simp add: heap_upd_file)
    have uc: "unat (count - 1) = unat count - 1" "0 < unat count"
      using c by (simp_all add: unat_minus_one unat_gt_0)
    have alg: "cursor ?f + sz + of_nat i * sz = cursor ?f + of_nat (Suc i) * sz" for i
      by (simp add: algebra_simps)
    show ?thesis
    proof (intro exI [of _ "Suc j"] conjI allI impI)
      show "Suc j \<le> unat count" using j(1) uc by simp
      show "k = rc + of_nat (Suc j)" using j(2) by simp
      show "s' = upd_file s p (?f\<lparr>cursor := cursor ?f + of_nat (Suc j) * sz\<rparr>)"
        using j(3) by (simp add: h1 upd_file_upd alg)
      show "length out' = length out + Suc j * unat sz" using j(4) lb by simp
      show "sz < size_f ?f - (cursor ?f + of_nat i * sz)" if "i < Suc j" for i
      proof (cases i)
        case 0
        with g show ?thesis by simp
      next
        case (Suc i')
        with that j(5) have "sz < size_f (heap ?s1 ! p) - (cursor (heap ?s1 ! p) + of_nat i' * sz)"
          by simp
        then show ?thesis by (simp add: h1 alg Suc)
      qed
      show "Suc j = unat count \<or> \<not> sz < size_f ?f - (cursor ?f + of_nat (Suc j) * sz)"
        using j(6) uc by (auto simp: h1 alg)
    qed
  qed
qed

text \<open>On an entry whose array is live and at least \<open>size\<close> long, with the cursor within
  the data, the loop of \<open>fRead\<close> reads without fault and hands back the bytes at the
  cursor; it reads element \<open>i\<close> while \<open>i + 1\<close> elements are strictly less than what remains.\<close>

lemma fRead_loop_wf:
  "p < length (heap s) \<Longrightarrow> buffer (heap s ! p) = Some b \<Longrightarrow> bufs s b = Some B \<Longrightarrow>
   unat (size_f (heap s ! p)) \<le> length B \<Longrightarrow> cursor (heap s ! p) \<le> size_f (heap s ! p) \<Longrightarrow>
   \<exists>j\<le>unat count.
      fRead_loop s p sz count out rc
        = Inr (rc + of_nat j, out @ take (j * unat sz) (drop (unat (cursor (heap s ! p))) B),
               upd_file s p ((heap s ! p)\<lparr>cursor := cursor (heap s ! p) + of_nat j * sz\<rparr>))
    \<and> unat (cursor (heap s ! p)) + j * unat sz \<le> unat (size_f (heap s ! p))
    \<and> (\<forall>i<j. unat (cursor (heap s ! p)) + Suc i * unat sz < unat (size_f (heap s ! p)))
    \<and> (j = unat count
        \<or> \<not> unat (cursor (heap s ! p)) + Suc j * unat sz < unat (size_f (heap s ! p)))"
proof (induction s p sz count out rc rule: fRead_loop.induct)
  case (1 s p sz count out rc)
  let ?f = "heap s ! p"
  from "1.prems"(5) have sub: "unat (size_f ?f - cursor ?f) = unat (size_f ?f) - unat (cursor ?f)"
    by (simp add: unat_sub)
  have le0: "unat (cursor ?f) \<le> unat (size_f ?f)"
    using "1.prems"(5) by (simp add: word_le_nat_alt)
  show ?case
  proof (cases "count = 0 \<or> \<not> sz < size_f ?f - cursor ?f")
    case True
    then have "fRead_loop s p sz count out rc = Inr (rc, out, s)"
      by (auto simp: fRead_loop.simps [of s p sz count] Let_def)
    moreover from True sub have "0 = unat count
        \<or> \<not> unat (cursor ?f) + Suc 0 * unat sz < unat (size_f ?f)"
      by (auto simp: word_less_nat_alt)
    ultimately show ?thesis
      using le0 by (intro exI [of _ 0]) (simp add: upd_file_same)
  next
    case False
    then have c: "count \<noteq> 0" and g: "sz < size_f ?f - cursor ?f" by auto
    from g sub have lt: "unat (cursor ?f) + unat sz < unat (size_f ?f)"
      by (simp add: word_less_nat_alt)
    have nowrap: "unat (cursor ?f + sz) = unat (cursor ?f) + unat sz"
      by (rule unat_add_lem [THEN iffD1], rule less_trans [OF lt], rule unsigned_less)
    let ?bytes = "take (unat sz) (drop (unat (cursor ?f)) B)"
    have rb: "read_bytes s (buffer ?f) (unat (cursor ?f)) (unat sz) = Inr ?bytes"
      using "1.prems"(2,3,4) lt by (simp add: read_bytes_def)
    let ?s1 = "upd_file s p (?f\<lparr>cursor := cursor ?f + sz\<rparr>)"
    have h1: "heap ?s1 ! p = ?f\<lparr>cursor := cursor ?f + sz\<rparr>"
      using "1.prems"(1) by (simp add: heap_upd_file)
    have le1: "cursor (heap ?s1 ! p) \<le> size_f (heap ?s1 ! p)"
      using lt nowrap by (simp add: h1 word_le_nat_alt)
    from "1.IH" [OF c refl g rb]
    obtain j where j: "j \<le> unat (count - 1)"
      "fRead_loop ?s1 p sz (count - 1) (out @ ?bytes) (rc + 1)
        = Inr (rc + 1 + of_nat j,
               (out @ ?bytes) @ take (j * unat sz) (drop (unat (cursor (heap ?s1 ! p))) B),
               upd_file ?s1 p ((heap ?s1 ! p)\<lparr>cursor := cursor (heap ?s1 ! p) + of_nat j * sz\<rparr>))"
      "unat (cursor (heap ?s1 ! p)) + j * unat sz \<le> unat (size_f (heap ?s1 ! p))"
      "\<forall>i<j. unat (cursor (heap ?s1 ! p)) + Suc i * unat sz < unat (size_f (heap ?s1 ! p))"
      "j = unat (count - 1)
        \<or> \<not> unat (cursor (heap ?s1 ! p)) + Suc j * unat sz < unat (size_f (heap ?s1 ! p))"
      using "1.prems"(1,2,3,4) le1
      by (auto simp: length_heap_upd_file bufs_upd_file h1)
    have uc: "unat (count - 1) = unat count - 1" "0 < unat count"
      using c by (simp_all add: unat_minus_one unat_gt_0)
    have alg: "cursor ?f + sz + of_nat j * sz = cursor ?f + of_nat (Suc j) * sz"
      by (simp add: algebra_simps)
    have tk: "?bytes @ take (j * unat sz) (drop (unat (cursor ?f) + unat sz) B)
               = take (Suc j * unat sz) (drop (unat (cursor ?f)) B)"
      by (simp add: take_add add.commute)
    have "fRead_loop s p sz count out rc
           = fRead_loop ?s1 p sz (count - 1) (out @ ?bytes) (rc + 1)"
      using c g rb by (simp add: fRead_loop.simps [of s p sz count] Let_def)
    also note j(2)
    finally have "fRead_loop s p sz count out rc
           = Inr (rc + of_nat (Suc j), out @ take (Suc j * unat sz) (drop (unat (cursor ?f)) B),
                  upd_file s p (?f\<lparr>cursor := cursor ?f + of_nat (Suc j) * sz\<rparr>))"
      using tk by (simp add: h1 nowrap upd_file_upd alg)
    moreover have "Suc j \<le> unat count" using j(1) uc by simp
    moreover have "unat (cursor ?f) + Suc j * unat sz \<le> unat (size_f ?f)"
      using j(3) by (simp add: h1 nowrap)
    moreover have "\<forall>i<Suc j. unat (cursor ?f) + Suc i * unat sz < unat (size_f ?f)"
    proof (intro allI impI)
      fix i assume "i < Suc j"
      show "unat (cursor ?f) + Suc i * unat sz < unat (size_f ?f)"
      proof (cases i)
        case 0
        with lt show ?thesis by simp
      next
        case (Suc i')
        with \<open>i < Suc j\<close> j(4) have
          "unat (cursor (heap ?s1 ! p)) + Suc i' * unat sz < unat (size_f (heap ?s1 ! p))"
          by simp
        then show ?thesis by (simp add: h1 nowrap Suc)
      qed
    qed
    moreover have "Suc j = unat count
        \<or> \<not> unat (cursor ?f) + Suc (Suc j) * unat sz < unat (size_f ?f)"
      using j(5) uc by (auto simp: h1 nowrap)
    ultimately show ?thesis by blast
  qed
qed

lemma fRead_well_formed:
  "p < length (heap s) \<Longrightarrow> buffer (heap s ! p) = Some b \<Longrightarrow> bufs s b = Some B \<Longrightarrow>
   unat (size_f (heap s ! p)) \<le> length B \<Longrightarrow> cursor (heap s ! p) \<le> size_f (heap s ! p) \<Longrightarrow>
   \<exists>k out s'. fRead s sz count (Some p) = Inr (k, out, s')"
  using fRead_loop_wf [of p s b B count sz "[]" 0] by (auto simp: fRead_def)

text \<open>The number of elements that pass the strict test, in closed form.\<close>

lemma strict_count:
  fixes j c r sz :: nat
  assumes "j \<le> c" and "\<forall>i<j. Suc i * sz < r" and "j = c \<or> \<not> Suc j * sz < r"
  shows "j = (if sz = 0 then (if r = 0 then 0 else c) else min c ((r - 1) div sz))"
proof (cases "sz = 0")
  case True
  show ?thesis
  proof (cases "r = 0")
    case True
    with assms(2) \<open>sz = 0\<close> have "j = 0" by (cases j) auto
    with True \<open>sz = 0\<close> show ?thesis by simp
  next
    case False
    with assms(3) \<open>sz = 0\<close> show ?thesis by simp
  qed
next
  case False
  then have pos: "0 < sz" by simp
  have iff: "Suc m * sz < r \<longleftrightarrow> Suc m \<le> (r - 1) div sz" for m
  proof (cases "r = 0")
    case True
    then show ?thesis by simp
  next
    case False
    then have "Suc m * sz < r \<longleftrightarrow> Suc m * sz \<le> r - 1" by arith
    also have "\<dots> \<longleftrightarrow> Suc m \<le> (r - 1) div sz"
      using pos by (simp add: less_eq_div_iff_mult_less_eq)
    finally show ?thesis .
  qed
  have up: "j \<le> (r - 1) div sz"
  proof (cases j)
    case 0 then show ?thesis by simp
  next
    case (Suc j')
    with assms(2) have "Suc j' * sz < r" by simp
    with iff [of j'] Suc show ?thesis by simp
  qed
  from assms(3) iff [of j] have "j = c \<or> (r - 1) div sz \<le> j" by auto
  with up assms(1) pos show ?thesis by auto
qed

subsection \<open>Conversions between \<^verbatim>\<open>long\<close> and \<^verbatim>\<open>size_t\<close>\<close>

lemma uint_plus_woi: "uint ((a::'w::len word) + word_of_int i) = (uint a + i) mod 2 ^ LENGTH('w)"
  by (simp add: uint_word_ariths uint_word_of_int mod_simps)

lemma uint_minus_woi: "uint ((a::'w::len word) - word_of_int i) = (uint a - i) mod 2 ^ LENGTH('w)"
  by (simp add: uint_word_ariths uint_word_of_int mod_simps)

subsection \<open>\<^verbatim>\<open>fOpen\<close> and \<^verbatim>\<open>write_file\<close>\<close>

lemma fOpen_found:
  assumes "fOpen s N m = Some (Inr (Some p, s1))"
  shows "p < length (heap s) \<and> name (heap s ! p) = N
       \<and> s1 = upd_file s p ((heap s ! p)\<lparr>cursor := 0\<rparr>)"
  using fOpen_loop_result [of s N "files s" "Inr (Some p, s1)"] assms
  by (auto simp: fOpen_def)

lemma fOpen_absent:
  assumes "fOpen s N m = Some (Inr (None, s1))"
  shows "s1 = s"
  using fOpen_loop_result [of s N "files s" "Inr (None, s1)"] assms
  by (auto simp: fOpen_def)

lemma fOpen_head:
  "files s = Some p \<Longrightarrow> p < length (heap s) \<Longrightarrow> name (heap s ! p) = N \<Longrightarrow>
   fOpen s N m = Some (Inr (Some p, upd_file s p ((heap s ! p)\<lparr>cursor := 0\<rparr>)))"
  by (simp add: fOpen_def fOpen_loop.simps [of s N "Some p"])

text \<open>A registration that is performed: the name is absent, a struct is left, and the name
  fits.\<close>

lemma write_file_new:
  assumes "fOpen s N m = Some (Inr (None, s0))" and "0 < avail s" and "length N < 32"
  shows "write_file s N contents len force
           = Some (Inr (1, \<lparr>heap = heap s @ [\<lparr>name = N, buffer = contents, size_f = len,
                                               cursor = 0, next_f = files s\<rparr>],
                            files = Some (length (heap s)), bufs = bufs s,
                            avail = avail s - 1\<rparr>))"
proof -
  from assms(1) have "fOpen s N [] = Some (Inr (None, s))"
    using fOpen_absent [OF assms(1)] by (simp add: fOpen_def)
  with assms(2,3) show ?thesis
    by (simp add: write_file_def malloc_def upd_file_def write_file_install_def)
qed

lemma write_file_new_only:
  assumes "fOpen s N m = Some (Inr (None, s0))"
    and "write_file s N contents len force = Some (Inr (1, s1))"
  shows "0 < avail s \<and> length N < 32"
proof -
  from assms(1) have "fOpen s N [] = Some (Inr (None, s))"
    using fOpen_absent [OF assms(1)] by (simp add: fOpen_def)
  with assms(2) show ?thesis
    by (auto simp: write_file_def malloc_def split: if_splits)
qed

lemma write_file_forced:
  assumes reg: "fOpen s N [] = Some (Inr (Some p, s'))"
    and held: "buffer (heap s ! p) = Some a" and A: "bufs s a = Some A"
    and force: "forceOverwrite \<noteq> 0"
  shows "write_file s N contents len forceOverwrite
           = Some (Inr (1, s\<lparr>heap := (heap s)[p := (heap s ! p)\<lparr>buffer := contents, size_f := len,
                                                                cursor := 0, next_f := files s\<rparr>],
                             files := Some p, bufs := (bufs s)(a := None)\<rparr>))"
proof -
  from fOpen_found [OF reg] have p: "p < length (heap s)" and n: "name (heap s ! p) = N"
    and s': "s' = upd_file s p ((heap s ! p)\<lparr>cursor := 0\<rparr>)" by simp_all
  have "write_file s N contents len forceOverwrite = Some (write_file_install s' p contents len)"
    using reg force by (simp add: write_file_def)
  also have "write_file_install s' p contents len
           = Inr (1, s\<lparr>heap := (heap s)[p := (heap s ! p)\<lparr>buffer := contents, size_f := len,
                                                          cursor := 0, next_f := files s\<rparr>],
                       files := Some p, bufs := (bufs s)(a := None)\<rparr>)"
    using p n held A by (simp add: s' write_file_install_def upd_file_def free_def)
  finally show ?thesis .
qed

lemma write_file_forced_null:
  assumes reg: "fOpen s N [] = Some (Inr (Some p, s'))"
    and held: "buffer (heap s ! p) = None"
    and force: "forceOverwrite \<noteq> 0"
  shows "\<exists>s2. write_file s N contents len forceOverwrite = Some (Inr (1, s2))"
proof -
  from fOpen_found [OF reg] have p: "p < length (heap s)"
    and s': "s' = upd_file s p ((heap s ! p)\<lparr>cursor := 0\<rparr>)" by simp_all
  have "write_file s N contents len forceOverwrite = Some (write_file_install s' p contents len)"
    using reg force by (simp add: write_file_def)
  then show ?thesis
    using p held by (simp add: s' write_file_install_def upd_file_def)
qed

text \<open>Whenever \<open>write_file\<close> returns, it returns 1, or 0 after a failed \<^verbatim>\<open>malloc\<close>.\<close>

lemma write_file_result:
  assumes "write_file v L c l f = Some (Inr (r, v'))"
  shows "(r = 1 \<or> r = 0) \<and> (r = 0 \<longleftrightarrow> fOpen v L [] = Some (Inr (None, v)) \<and> avail v = 0)"
proof (cases "fOpen v L []")
  case None
  with assms show ?thesis by (simp add: write_file_def)
next
  case (Some x)
  show ?thesis
  proof (cases x)
    case (Inl e)
    with Some assms show ?thesis by (simp add: write_file_def)
  next
    case (Inr y)
    obtain found v1 where y: "y = (found, v1)" by (cases y)
    show ?thesis
    proof (cases found)
      case None
      with Some Inr y have ab: "fOpen v L [] = Some (Inr (None, v1))" by simp
      from fOpen_absent [OF ab] have v1: "v1 = v" .
      from assms ab v1 show ?thesis
        by (auto simp: write_file_def malloc_def write_file_install_def upd_file_def
              split: if_splits)
    next
      case (Some q)
      with \<open>fOpen v L [] = Some x\<close> Inr y have pr: "fOpen v L [] = Some (Inr (Some q, v1))" by simp
      from assms pr show ?thesis
        by (auto simp: write_file_def write_file_install_def split: if_splits option.splits sum.splits)
    qed
  qed
qed

text \<open>After a registration that was performed, the name is registered and its entry holds
  the array that was passed.\<close>

lemma write_file_performed:
  assumes first: "write_file t N contents len force1 = Some (Inr (1, t1))"
    and performed: "fOpen t N [] = Some (Inr (None, t0)) \<or> force1 \<noteq> 0"
  shows "\<exists>q. fOpen t1 N [] = Some (Inr (Some q, t1)) \<and> buffer (heap t1 ! q) = contents
            \<and> size_f (heap t1 ! q) = len \<and> cursor (heap t1 ! q) = 0"
proof (cases "\<exists>t0. fOpen t N [] = Some (Inr (None, t0))")
  case True
  then obtain t0 where ab: "fOpen t N [] = Some (Inr (None, t0))" by blast
  from write_file_new_only [OF ab first] have ok: "0 < avail t" "length N < 32" by simp_all
  let ?q = "length (heap t)"
  from first write_file_new [OF ab ok, of contents len force1]
  have t1: "t1 = \<lparr>heap = heap t @ [\<lparr>name = N, buffer = contents, size_f = len, cursor = 0,
                                     next_f = files t\<rparr>],
                 files = Some ?q, bufs = bufs t, avail = avail t - 1\<rparr>" by simp
  have "fOpen t1 N [] = Some (Inr (Some ?q, t1))"
    using fOpen_head [of t1 ?q N "[]"] by (simp add: t1 upd_file_def)
  then show ?thesis by (intro exI [of _ ?q]) (simp add: t1)
next
  case False
  with performed have f: "force1 \<noteq> 0" by blast
  from first obtain x where x: "fOpen t N [] = Some x" by (cases "fOpen t N []") (auto simp: write_file_def)
  from first x False obtain q tq where pr: "fOpen t N [] = Some (Inr (Some q, tq))"
    by (cases x) (auto simp: write_file_def split: option.splits)
  from fOpen_found [OF pr] have q: "q < length (heap t)" and n: "name (heap t ! q) = N"
    and tq: "tq = upd_file t q ((heap t ! q)\<lparr>cursor := 0\<rparr>)" by simp_all
  from first pr f have inst: "write_file_install tq q contents len = Inr (1, t1)"
    by (simp add: write_file_def)
  then have h: "files t1 = Some q" "q < length (heap t1)" "name (heap t1 ! q) = N"
    "buffer (heap t1 ! q) = contents" "size_f (heap t1 ! q) = len" "cursor (heap t1 ! q) = 0"
    using q n by (auto simp: write_file_install_def tq upd_file_def free_def
                    split: option.splits sum.splits if_splits)
  have "upd_file t1 q ((heap t1 ! q)\<lparr>cursor := 0\<rparr>) = t1"
    using h(6) upd_file_same [of t1 q] by (metis File.surjective File.update_convs(4) h(6))
  with fOpen_head [OF h(1,2,3), of "[]"] have "fOpen t1 N [] = Some (Inr (Some q, t1))" by simp
  with h show ?thesis by blast
qed

subsection \<open>The example states\<close>

text \<open>The calls that lead from one example state to the next, evaluated.\<close>

lemma write_ex_init: "write_file ex_init ''a'' (Some 0) 5 0 = Some (Inr (1, ex_a))"
  by (simp add: ex_defs op_defs fOpen_loop.simps)

lemma write_ex_a_refused: "write_file ex_a ''a'' (Some 1) 10 0 = Some (Inr (1, ex_a))"
  by (simp add: ex_defs op_defs fOpen_loop.simps)

lemma fOpen_ex_a: "fOpen ex_a ''a'' [] = Some (Inr (Some 0, ex_a))"
  by (simp add: ex_defs op_defs fOpen_loop.simps)

lemma fOpen_ex_init: "fOpen ex_init ''a'' [] = Some (Inr (None, ex_init))"
  by (simp add: ex_defs op_defs fOpen_loop.simps)

lemma fSeek_ex_a_2: "fSeek ex_a (Some 0) 2 SEEK_SET = Inr (0, ex_a2)"
  by (simp add: ex_defs op_defs)

lemma write_ex_a2_refused: "write_file ex_a2 ''a'' (Some 1) 10 0 = Some (Inr (1, ex_a))"
  by (simp add: ex_defs op_defs fOpen_loop.simps)

lemma fOpen_ex_a2: "fOpen ex_a2 ''a'' [] = Some (Inr (Some 0, ex_a))"
  by (simp add: ex_defs op_defs fOpen_loop.simps)

lemma fOpen_ex_a_b: "fOpen ex_a ''b'' [] = Some (Inr (None, ex_a))"
  by (simp add: ex_defs op_defs fOpen_loop.simps)

lemma write_ex_a_b: "write_file ex_a ''b'' (Some 1) 10 0 = Some (Inr (1, ex_b))"
  by (simp add: ex_defs op_defs fOpen_loop.simps)

lemma write_ex_a_forced: "write_file ex_a ''a'' (Some 1) 10 1 = Some (Inr (1, ex_cyc))"
  by (simp add: ex_defs op_defs fOpen_loop.simps fun_upd_twist)

lemma fRead_ex_a_4: "fRead ex_a 4 1 (Some 0) = Inr (1, ''hell'', ex_a4)"
  by (simp add: ex_a_def ex_a4_def fRead_def fRead_loop.simps read_bytes_def upd_file_def Let_def)

lemma fRead_ex_a_5: "fRead ex_a 5 1 (Some 0) = Inr (0, [], ex_a)"
  by (simp add: ex_a_def fRead_def fRead_loop.simps read_bytes_def upd_file_def Let_def)

lemma fRead_ex_wild_6: "fRead ex_wild 6 1 (Some 0) = Inr (0, [], ex_wild)"
  by (simp add: ex_wild_def fRead_def fRead_loop.simps read_bytes_def upd_file_def Let_def)

lemma fRead_ex_wild_5: "fRead ex_wild 5 1 (Some 0) = Inl OutOfBounds"
  by (simp add: ex_wild_def fRead_def fRead_loop.simps read_bytes_def upd_file_def Let_def)

lemma fOpen_ex_b_c: "fOpen ex_b ''c'' [] = Some (Inr (None, ex_b))"
  by (simp add: ex_defs op_defs fOpen_loop.simps)

lemma write_ex_b_c: "write_file ex_b ''c'' (Some 1) 10 0 = Some (Inr (0, ex_b))"
  by (simp add: ex_defs op_defs fOpen_loop.simps)

lemma write_ex_a2_forced: "write_file ex_a2 ''a'' (Some 1) 10 1 = Some (Inr (1, ex_cyc))"
  by (simp add: ex_defs op_defs fOpen_loop.simps fun_upd_twist)

lemma fOpen_ex_cyc: "fOpen ex_cyc ''a'' [] = Some (Inr (Some 0, ex_cyc))"
  by (simp add: ex_defs op_defs fOpen_loop.simps)

lemma fRead_ex_cyc_1_10: "fRead ex_cyc 1 10 (Some 0) = Inr (9, ''012345678'', ex_cyc9)"
  by (simp add: ex_cyc_def ex_cyc9_def fRead_def fRead_loop.simps read_bytes_def upd_file_def Let_def)

lemma fRead_ex_cyc_10_1: "fRead ex_cyc 10 1 (Some 0) = Inr (0, [], ex_cyc)"
  by (simp add: ex_cyc_def fRead_def fRead_loop.simps read_bytes_def upd_file_def Let_def)

lemma write_ex3_init: "write_file ex3_init ''a'' (Some 0) 5 0 = Some (Inr (1, ex3_a))"
  by (simp add: ex3_defs op_defs fOpen_loop.simps)

lemma write_ex3_a_refused: "write_file ex3_a ''a'' (Some 1) 10 0 = Some (Inr (1, ex3_a))"
  by (simp add: ex3_defs op_defs fOpen_loop.simps)

lemma write_ex3_a_forced: "write_file ex3_a ''a'' (Some 2) 2 1 = Some (Inr (1, ex3_f))"
  by (simp add: ex3_defs op_defs fOpen_loop.simps fun_upd_twist)

section \<open>The claims\<close>

subsection \<open>Registering a name that is present, without overwrite\<close>

text \<open>
  Claim C1 says that \<open>write_file\<close> with \<open>forceOverwrite = 0\<close> on a registered name returns
  a failure indication that differs from the result of a registration that was performed.
  It does not: registering \<open>a\<close> in the empty store \<open>ex_init\<close> returns 1, and
  registering \<open>a\<close> again without overwrite returns 1 as well.
\<close>

theorem write_file_refusal_looks_like_success:
  "fOpen ex_init ''a'' [] = Some (Inr (None, ex_init))
   \<and> write_file ex_init ''a'' (Some 0) 5 0 = Some (Inr (1, ex_a))
   \<and> fOpen ex_a ''a'' [] = Some (Inr (Some 0, ex_a))
   \<and> write_file ex_a ''a'' (Some 1) 10 0 = Some (Inr (1, ex_a))"
  by (intro conjI) (rule fOpen_ex_init write_ex_init fOpen_ex_a write_ex_a_refused)+

text \<open>
  Claim C1, amended. When the name is registered, \<open>write_file\<close> with
  \<open>forceOverwrite = 0\<close> returns 1. That is also what every registration that is performed
  returns: the one that creates the entry (the name is absent, \<^verbatim>\<open>malloc\<close> delivers a
  struct and the name fits the 32 bytes) and the one that overwrites it by force (the array
  the entry holds, if any, is live). Whenever \<open>write_file\<close> returns, it returns 1 or 0,
  and 0 exactly when the name is absent and no memory is left for a new entry. So the
  return value does not tell the refusal from a registration that was performed.
\<close>

theorem write_file_refused_returns_1:
  fixes s t u v :: "'w::len word state"
  assumes reg: "fOpen s N [] = Some (Inr (Some p, s1))"
    and new: "fOpen t M [] = Some (Inr (None, t1))" and mem: "0 < avail t"
    and fits: "length M < 32"
    and present: "fOpen u K [] = Some (Inr (Some q, u1))" and force: "force \<noteq> 0"
    and live: "\<forall>b. buffer (heap u ! q) = Some b \<longrightarrow> bufs u b \<noteq> None"
    and ret: "write_file v L c l f = Some (Inr (r, v'))"
  shows "write_file s N contents len 0 = Some (Inr (1, s1))
       \<and> (\<exists>t'. write_file t M cN lN fN = Some (Inr (1, t')))
       \<and> (\<exists>u'. write_file u K cF lF force = Some (Inr (1, u')))
       \<and> (r = 1 \<or> r = 0)
       \<and> (r = 0 \<longleftrightarrow> fOpen v L [] = Some (Inr (None, v)) \<and> avail v = 0)"
proof -
  have a: "write_file s N contents len 0 = Some (Inr (1, s1))"
    using reg by (simp add: write_file_def)
  have b: "\<exists>t'. write_file t M cN lN fN = Some (Inr (1, t'))"
    using write_file_new [OF new mem fits, of cN lN fN] by simp
  have c: "\<exists>u'. write_file u K cF lF force = Some (Inr (1, u'))"
  proof (cases "buffer (heap u ! q)")
    case None
    from write_file_forced_null [OF present None force] show ?thesis .
  next
    case (Some b)
    with live obtain cs where "bufs u b = Some cs" by auto
    from write_file_forced [OF present Some this force, of cF lF] show ?thesis by simp
  qed
  from a b c write_file_result [OF ret] show ?thesis by blast
qed

theorem write_file_refused_returns_1_witness:
  "fOpen ex_a ''a'' [] = Some (Inr (Some 0, ex_a))
   \<and> fOpen ex_init ''a'' [] = Some (Inr (None, ex_init)) \<and> 0 < avail ex_init
   \<and> length ''a'' < 32
   \<and> buffer (heap ex_a ! 0) = Some 0 \<and> bufs ex_a 0 = Some ''hello''
   \<and> write_file ex_b ''c'' (Some 1) 10 0 = Some (Inr (0, ex_b))
   \<and> write_file ex_a ''a'' (Some 1) 10 0 = Some (Inr (1, ex_a))
   \<and> (\<exists>t'. write_file ex_init ''a'' (Some 0) 5 0 = Some (Inr (1, t')))
   \<and> (\<exists>u'. write_file ex_a ''a'' (Some 1) 10 1 = Some (Inr (1, u')))
   \<and> fOpen ex_b ''c'' [] = Some (Inr (None, ex_b)) \<and> avail ex_b = 0"
proof -
  have m: "0 < avail ex_init" and l: "length ''a'' < 32" by (simp_all add: ex_init_def)
  have h: "buffer (heap ex_a ! 0) = Some 0" "bufs ex_a 0 = Some ''hello''"
    by (simp_all add: ex_a_def)
  have lv: "\<forall>b. buffer (heap ex_a ! 0) = Some b \<longrightarrow> bufs ex_a b \<noteq> None"
    by (simp add: ex_a_def)
  have f: "(1 :: int) \<noteq> 0" by simp
  note inst = write_file_refused_returns_1
    [OF fOpen_ex_a fOpen_ex_init m l fOpen_ex_a f lv write_ex_b_c,
     of "Some 1" 10 "Some 0" 5 0 "Some 1" 10]
  from inst have
    "write_file ex_a ''a'' (Some 1) 10 0 = Some (Inr (1, ex_a))"
    "\<exists>t'. write_file ex_init ''a'' (Some 0) 5 0 = Some (Inr (1, t'))"
    "\<exists>u'. write_file ex_a ''a'' (Some 1) 10 1 = Some (Inr (1, u'))"
    "fOpen ex_b ''c'' [] = Some (Inr (None, ex_b)) \<and> avail ex_b = 0"
    by blast+
  with fOpen_ex_a fOpen_ex_init m l h write_ex_b_c show ?thesis by (intro conjI) blast+
qed

text \<open>
  Claim C3 says that the refused call leaves buffer, size and cursor of the entry as they
  were. The cursor is not kept: \<open>write_file\<close> looks the name up with \<open>fOpen\<close>, which
  rewinds the entry. After a seek to position 2 the refused call leaves the cursor at 0.
\<close>

theorem write_file_refused_resets_cursor:
  "fSeek ex_a (Some 0) 2 SEEK_SET = Inr (0, ex_a2)
   \<and> cursor (heap ex_a2 ! 0) = 2
   \<and> write_file ex_a2 ''a'' (Some 1) 10 0 = Some (Inr (1, ex_a))
   \<and> cursor (heap ex_a ! 0) = 0
   \<and> cursor (heap ex_a ! 0) \<noteq> cursor (heap ex_a2 ! 0)"
proof -
  have "cursor (heap ex_a2 ! 0) = 2" "cursor (heap ex_a ! 0) = 0"
    "cursor (heap ex_a ! 0) \<noteq> cursor (heap ex_a2 ! 0)"
    by (simp_all add: ex_a_def ex_a2_def)
  with fSeek_ex_a_2 write_ex_a2_refused show ?thesis by (intro conjI)
qed

text \<open>
  Claim C3, amended. When the name is registered, \<open>write_file\<close> with
  \<open>forceOverwrite = 0\<close> leaves the name, the buffer, the size and the link of the entry
  as they were and sets its cursor to 0; no other struct changes, and neither do
  \<^verbatim>\<open>files\<close>, the arrays and the memory left.
\<close>

theorem write_file_refused_frame:
  assumes reg: "fOpen s N [] = Some (Inr (Some p, s1))"
  shows "\<exists>s'. write_file s N contents len 0 = Some (Inr (1, s'))
           \<and> heap s' = (heap s)[p := (heap s ! p)\<lparr>cursor := 0\<rparr>]
           \<and> p < length (heap s)
           \<and> name (heap s' ! p) = name (heap s ! p) \<and> name (heap s ! p) = N
           \<and> buffer (heap s' ! p) = buffer (heap s ! p)
           \<and> size_f (heap s' ! p) = size_f (heap s ! p)
           \<and> next_f (heap s' ! p) = next_f (heap s ! p)
           \<and> cursor (heap s' ! p) = 0
           \<and> files s' = files s \<and> bufs s' = bufs s \<and> avail s' = avail s"
  using reg fOpen_found [OF reg] by (simp add: write_file_def upd_file_def)

theorem write_file_refused_frame_witness:
  "fOpen ex_a2 ''a'' [] = Some (Inr (Some 0, ex_a))
   \<and> write_file ex_a2 ''a'' (Some 1) 10 0 = Some (Inr (1, ex_a))
   \<and> buffer (heap ex_a ! 0) = buffer (heap ex_a2 ! 0)
   \<and> size_f (heap ex_a ! 0) = size_f (heap ex_a2 ! 0)
   \<and> cursor (heap ex_a ! 0) = 0
   \<and> bufs ex_a = bufs ex_a2"
  using write_file_refused_frame [OF fOpen_ex_a2, of "Some 1" 10] fOpen_ex_a2 write_ex_a2_refused
  by auto

subsection \<open>Forced overwrite\<close>

text \<open>
  Claim C7 says that after a \<open>write_file\<close> for \<open>N\<close> with \<open>A\<close> that succeeded, a forced
  \<open>write_file\<close> with \<open>B\<close> releases \<open>A\<close>, and \<open>fOpen\<close> followed by reads then yields
  exactly the bytes of \<open>B\<close>. Two parts fail. \<open>fRead\<close> never hands back the last byte of
  \<open>B\<close>: after \<open>a\<close> is overwritten with the ten bytes \<open>0123456789\<close>, reading ten
  elements of one byte yields nine bytes and reading one element of ten bytes yields none
  (the strict test of claim C5). And a \<open>write_file\<close> with \<open>A\<close> that returns 1 may have
  been refused: in \<open>ex3_a\<close> the call with the array at 1 returns 1 and leaves the entry
  with the array at 0, so the forced call frees the array at 0 and the one at 1 stays live.
\<close>

theorem forced_overwrite_read_stops_short:
  "write_file ex_init ''a'' (Some 0) 5 0 = Some (Inr (1, ex_a))
   \<and> write_file ex_a ''a'' (Some 1) 10 1 = Some (Inr (1, ex_cyc))
   \<and> bufs ex_a 1 = Some ''0123456789''
   \<and> fOpen ex_cyc ''a'' [] = Some (Inr (Some 0, ex_cyc))
   \<and> fRead ex_cyc 1 10 (Some 0) = Inr (9, ''012345678'', ex_cyc9)
   \<and> ''012345678'' \<noteq> ''0123456789''
   \<and> fRead ex_cyc 10 1 (Some 0) = Inr (0, [], ex_cyc)
   \<and> write_file ex3_init ''a'' (Some 0) 5 0 = Some (Inr (1, ex3_a))
   \<and> write_file ex3_a ''a'' (Some 1) 10 0 = Some (Inr (1, ex3_a))
   \<and> write_file ex3_a ''a'' (Some 2) 2 1 = Some (Inr (1, ex3_f))
   \<and> bufs ex3_f 1 = Some ''0123456789'' \<and> bufs ex3_f 0 = None"
proof -
  have "bufs ex_a 1 = Some ''0123456789''" "''012345678'' \<noteq> ''0123456789''"
    "bufs ex3_f 1 = Some ''0123456789''" "bufs ex3_f 0 = None"
    by (simp_all add: ex_a_def ex3_f_def)
  with write_ex_init write_ex_a_forced fOpen_ex_cyc fRead_ex_cyc_1_10 fRead_ex_cyc_10_1
    write_ex3_init write_ex3_a_refused write_ex3_a_forced
  show ?thesis by (intro conjI)
qed

text \<open>
  Claim C7, amended. After a \<open>write_file\<close> for \<open>N\<close> with the array at \<open>a\<close> that returned 1
  and was performed (the name was absent, or the overwrite was forced), \<open>N\<close> is
  registered and its entry holds \<open>a\<close>. Let \<open>N\<close> be registered, its entry holding the
  live array \<open>A\<close> at \<open>a\<close>, with any cursor, and let \<open>write_file\<close> be called for \<open>N\<close>
  with a non-zero \<open>forceOverwrite\<close> and another live array \<open>B\<close> at \<open>b\<close>, of at least
  \<open>lenB\<close> bytes. Then the call returns 1; \<open>A\<close> is freed
  and no other array is; the entry holds \<open>b\<close>, the size \<open>lenB\<close> and the cursor 0;
  \<open>fOpen\<close> returns the entry; and \<open>fRead\<close> of \<open>count\<close> elements of \<open>sz\<close> bytes returns
  without fault \<open>j\<close> elements, the first \<open>j * sz\<close> bytes of \<open>B\<close>, where \<open>j\<close> is the
  smaller of \<open>count\<close> and \<open>(lenB - 1) div sz\<close> (for \<open>sz = 0\<close>: \<open>count\<close>, or 0 when
  \<open>lenB = 0\<close>). These are at most \<open>lenB - 1\<close> bytes: the last byte of \<open>B\<close> is never
  read.
\<close>

theorem write_file_forced_replaces:
  fixes s t :: "'w::len word state"
  assumes reg: "fOpen s N [] = Some (Inr (Some p, s'))"
    and held: "buffer (heap s ! p) = Some a" and A: "bufs s a = Some A"
    and B: "bufs s b = Some B" and ab: "a \<noteq> b" and lenB: "unat lenB \<le> length B"
    and force: "forceOverwrite \<noteq> 0"
    and first: "write_file t N (Some a) lenA force1 = Some (Inr (1, t1))"
    and performed: "fOpen t N [] = Some (Inr (None, t0)) \<or> force1 \<noteq> 0"
  shows "(\<exists>q. fOpen t1 N [] = Some (Inr (Some q, t1)) \<and> buffer (heap t1 ! q) = Some a)
       \<and> (\<exists>s2. write_file s N (Some b) lenB forceOverwrite = Some (Inr (1, s2))
             \<and> bufs s2 = (bufs s)(a := None) \<and> bufs s2 a = None \<and> bufs s2 b = Some B
             \<and> length (heap s2) = length (heap s) \<and> p < length (heap s2)
             \<and> name (heap s2 ! p) = N \<and> buffer (heap s2 ! p) = Some b
             \<and> size_f (heap s2 ! p) = lenB \<and> cursor (heap s2 ! p) = 0
             \<and> fOpen s2 N [] = Some (Inr (Some p, s2))
             \<and> (let j = (if unat sz = 0 then (if unat lenB = 0 then 0 else unat count)
                         else min (unat count) ((unat lenB - 1) div unat sz))
                in fRead s2 sz count (Some p)
                     = Inr (of_nat j, take (j * unat sz) B,
                            upd_file s2 p ((heap s2 ! p)\<lparr>cursor := of_nat j * sz\<rparr>))
                   \<and> j * unat sz \<le> unat lenB - 1))"
proof -
  from fOpen_found [OF reg] have p: "p < length (heap s)" and n: "name (heap s ! p) = N"
    by simp_all
  let ?e = "(heap s ! p)\<lparr>buffer := Some b, size_f := lenB, cursor := 0, next_f := files s\<rparr>"
  let ?s2 = "s\<lparr>heap := (heap s)[p := ?e], files := Some p, bufs := (bufs s)(a := None)\<rparr>"
  have w: "write_file s N (Some b) lenB forceOverwrite = Some (Inr (1, ?s2))"
    by (rule write_file_forced [OF reg held A force])
  have props: "bufs ?s2 = (bufs s)(a := None)" "bufs ?s2 a = None" "bufs ?s2 b = Some B"
    "length (heap ?s2) = length (heap s)" "p < length (heap ?s2)"
    "name (heap ?s2 ! p) = N" "buffer (heap ?s2 ! p) = Some b"
    "size_f (heap ?s2 ! p) = lenB" "cursor (heap ?s2 ! p) = 0"
    using p n B ab by simp_all
  have fs: "files ?s2 = Some p" by simp
  have "(heap ?s2 ! p)\<lparr>cursor := 0\<rparr> = heap ?s2 ! p"
    using p by (intro File.equality) simp_all
  then have same: "upd_file ?s2 p ((heap ?s2 ! p)\<lparr>cursor := 0\<rparr>) = ?s2"
    by (simp only: upd_file_same)
  have op: "fOpen ?s2 N [] = Some (Inr (Some p, ?s2))"
    using fOpen_head [OF fs props(5) props(6), of "[]"] same by simp
  have le0: "cursor (heap ?s2 ! p) \<le> size_f (heap ?s2 ! p)" using p by simp
  have sz2: "unat (size_f (heap ?s2 ! p)) \<le> length B" using p lenB by simp
  from fRead_loop_wf [OF props(5) props(7) props(3) sz2 le0, of count sz "[]" 0]
  obtain j where j: "j \<le> unat count"
    "fRead_loop ?s2 p sz count [] 0
       = Inr (of_nat j, take (j * unat sz) B,
              upd_file ?s2 p ((heap ?s2 ! p)\<lparr>cursor := of_nat j * sz\<rparr>))"
    "\<forall>i<j. Suc i * unat sz < unat lenB"
    "j = unat count \<or> \<not> Suc j * unat sz < unat lenB"
    using p by auto
  let ?j = "if unat sz = 0 then (if unat lenB = 0 then 0 else unat count)
            else min (unat count) ((unat lenB - 1) div unat sz)"
  from strict_count [OF j(1) j(3) j(4)] have jeq: "j = ?j" .
  have short: "j * unat sz \<le> unat lenB - 1"
  proof (cases j)
    case 0 then show ?thesis by simp
  next
    case (Suc j')
    with j(3) have "Suc j' * unat sz < unat lenB" by simp
    with Suc show ?thesis by simp
  qed
  have rd: "fRead ?s2 sz count (Some p)
              = Inr (of_nat j, take (j * unat sz) B,
                     upd_file ?s2 p ((heap ?s2 ! p)\<lparr>cursor := of_nat j * sz\<rparr>))"
    using j(2) props(5) by (simp add: fRead_def)
  have rdj: "let j = ?j
             in fRead ?s2 sz count (Some p)
                  = Inr (of_nat j, take (j * unat sz) B,
                         upd_file ?s2 p ((heap ?s2 ! p)\<lparr>cursor := of_nat j * sz\<rparr>))
                \<and> j * unat sz \<le> unat lenB - 1"
    unfolding Let_def using rd short unfolding jeq by (rule conjI)
  have part2: "\<exists>s2. write_file s N (Some b) lenB forceOverwrite = Some (Inr (1, s2))
             \<and> bufs s2 = (bufs s)(a := None) \<and> bufs s2 a = None \<and> bufs s2 b = Some B
             \<and> length (heap s2) = length (heap s) \<and> p < length (heap s2)
             \<and> name (heap s2 ! p) = N \<and> buffer (heap s2 ! p) = Some b
             \<and> size_f (heap s2 ! p) = lenB \<and> cursor (heap s2 ! p) = 0
             \<and> fOpen s2 N [] = Some (Inr (Some p, s2))
             \<and> (let j = ?j
                in fRead s2 sz count (Some p)
                     = Inr (of_nat j, take (j * unat sz) B,
                            upd_file s2 p ((heap s2 ! p)\<lparr>cursor := of_nat j * sz\<rparr>))
                   \<and> j * unat sz \<le> unat lenB - 1)"
    by (rule exI [of _ ?s2], intro conjI) (fact w props op rdj)+
  from write_file_performed [OF first performed]
  have part1: "\<exists>q. fOpen t1 N [] = Some (Inr (Some q, t1)) \<and> buffer (heap t1 ! q) = Some a"
    by blast
  from part1 part2 show ?thesis by (rule conjI)
qed

text \<open>From cursor 2 the forced overwrite leads to cursor 0; reading ten elements of one
  byte then returns the first nine bytes of the ten.\<close>

theorem write_file_forced_replaces_witness:
  "fOpen ex_a2 ''a'' [] = Some (Inr (Some 0, ex_a))
   \<and> buffer (heap ex_a2 ! 0) = Some 0 \<and> bufs ex_a2 0 = Some ''hello''
   \<and> bufs ex_a2 1 = Some ''0123456789'' \<and> unat (10 :: 32 word) \<le> length ''0123456789''
   \<and> write_file ex_init ''a'' (Some 0) 5 0 = Some (Inr (1, ex_a))
   \<and> fOpen ex_init ''a'' [] = Some (Inr (None, ex_init))
   \<and> fSeek ex_a (Some 0) 2 SEEK_SET = Inr (0, ex_a2) \<and> cursor (heap ex_a2 ! 0) = 2
   \<and> (\<exists>q. fOpen ex_a ''a'' [] = Some (Inr (Some q, ex_a)) \<and> buffer (heap ex_a ! q) = Some 0)
   \<and> write_file ex_a2 ''a'' (Some 1) 10 1 = Some (Inr (1, ex_cyc))
   \<and> bufs ex_cyc 0 = None \<and> bufs ex_cyc 1 = Some ''0123456789''
   \<and> buffer (heap ex_cyc ! 0) = Some 1 \<and> size_f (heap ex_cyc ! 0) = 10
   \<and> cursor (heap ex_cyc ! 0) = 0
   \<and> fOpen ex_cyc ''a'' [] = Some (Inr (Some 0, ex_cyc))
   \<and> fRead ex_cyc 1 10 (Some 0)
        = Inr (9, take 9 ''0123456789'', upd_file ex_cyc 0 ((heap ex_cyc ! 0)\<lparr>cursor := 9\<rparr>))"
proof -
  have h: "buffer (heap ex_a2 ! 0) = Some 0" "bufs ex_a2 0 = Some ''hello''"
    "bufs ex_a2 1 = Some ''0123456789''" "(0 :: nat) \<noteq> 1"
    "unat (10 :: 32 word) \<le> length ''0123456789''" "(1 :: int) \<noteq> 0"
    "cursor (heap ex_a2 ! 0) = 2"
    by (simp_all add: ex_a2_def)
  have pf: "fOpen ex_init ''a'' [] = Some (Inr (None, ex_init)) \<or> (0 :: int) \<noteq> 0"
    using fOpen_ex_init by (rule disjI1)
  note inst = write_file_forced_replaces
    [OF fOpen_ex_a2 h(1) h(2) h(3) h(4) h(5) h(6) write_ex_init pf, of 1 10]
  from inst have p1:
    "\<exists>q. fOpen ex_a ''a'' [] = Some (Inr (Some q, ex_a)) \<and> buffer (heap ex_a ! q) = Some 0"
    by (rule conjunct1)
  from inst [THEN conjunct2] write_ex_a2_forced have p2:
    "bufs ex_cyc 0 = None" "bufs ex_cyc 1 = Some ''0123456789''"
    "buffer (heap ex_cyc ! 0) = Some 1" "size_f (heap ex_cyc ! 0) = 10"
    "cursor (heap ex_cyc ! 0) = 0"
    "fOpen ex_cyc ''a'' [] = Some (Inr (Some 0, ex_cyc))"
    "fRead ex_cyc 1 10 (Some 0)
        = Inr (9, take 9 ''0123456789'', upd_file ex_cyc 0 ((heap ex_cyc ! 0)\<lparr>cursor := 9\<rparr>))"
    by (auto simp: Let_def)
  show ?thesis
    by (intro conjI)
       (fact fOpen_ex_a2 h write_ex_init fOpen_ex_init fSeek_ex_a_2 p1 write_ex_a2_forced p2)+
qed

text \<open>
  Claim C2 says that \<open>fOpen\<close> of a name that is not registered returns \<^verbatim>\<open>NULL\<close>, also
  after a forced overwrite. The forced overwrite links the entry in front of \<^verbatim>\<open>files\<close>
  although it is in the list already (\<^verbatim>\<open>file->next = files; files = file\<close> is not
  confined to the new entry). Once \<open>a\<close> is registered, \<open>fOpen\<close> of the absent name
  \<open>b\<close> returns \<^verbatim>\<open>NULL\<close>; in \<open>ex_cyc\<close>, reached by overwriting \<open>a\<close>, the entry is its
  own successor, and \<open>fOpen\<close> of \<open>b\<close> does not return.
\<close>

theorem fOpen_diverges_after_forced_overwrite:
  "write_file ex_init ''a'' (Some 0) 5 0 = Some (Inr (1, ex_a))
   \<and> fOpen ex_a ''b'' [] = Some (Inr (None, ex_a))
   \<and> write_file ex_a ''a'' (Some 1) 10 1 = Some (Inr (1, ex_cyc))
   \<and> files ex_cyc = Some 0 \<and> next_f (heap ex_cyc ! 0) = Some 0
   \<and> fOpen ex_cyc ''b'' [] = None"
proof -
  have "fOpen_loop ex_cyc ''b'' (Some 0) = None"
    by (rule fOpen_loop_diverges [where C = "{0}"]) (auto simp: ex_cyc_def)
  then have "fOpen ex_cyc ''b'' [] = None" by (simp add: fOpen_def ex_cyc_def)
  moreover have "files ex_cyc = Some 0" "next_f (heap ex_cyc ! 0) = Some 0"
    by (simp_all add: ex_cyc_def)
  ultimately show ?thesis
    using write_ex_init fOpen_ex_a_b write_ex_a_forced by (intro conjI)
qed

subsection \<open>Reading\<close>

text \<open>
  Claim C4 says that \<open>fGets\<close> stops when \<open>n - 1\<close> bytes are copied, so that with the
  terminator at most \<open>n\<close> bytes are stored. Its loop runs \<open>n\<close> times
  (\<^verbatim>\<open>while (n-- > 0 && ...)\<close>): on the file \<open>hello\<close> with \<open>n = 2\<close> it copies two bytes
  and stores the terminator behind them, three bytes in all.
\<close>

theorem fGets_writes_one_too_many:
  "fGets ex_a 2 (Some 0) = Inr (Some [CHR ''h'', CHR ''e'', CHR 0x00], ex_a2)
   \<and> 2 < length [CHR ''h'', CHR ''e'', CHR 0x00]"
  by (simp add: ex_defs op_defs fGets_loop.simps)

text \<open>
  Claim C5. For a valid handle, whenever \<open>fRead\<close> returns a count \<open>k\<close>: \<open>k\<close> is at most
  \<open>count\<close>; each of the \<open>k\<close> elements was read while \<open>size - cursor\<close> was strictly
  greater than the element size; the loop stopped because \<open>count\<close> elements were read or
  because \<open>size - cursor\<close> was no longer strictly greater; so an element that would exactly
  exhaust the remaining bytes is not read; the cursor has advanced by the element size
  times \<open>k\<close>, and that many bytes were copied. (\<open>fRead_well_formed\<close>: it does return
  when the array is live and as long as \<open>size\<close>, and the cursor is within the data.)
\<close>

theorem fRead_boundary_exclusive:
  assumes valid: "p < length (heap s)"
    and ret: "fRead s sz count (Some p) = Inr (k, out, s')"
  shows "k \<le> count
       \<and> (\<forall>i<unat k. sz < size_f (heap s ! p) - (cursor (heap s ! p) + of_nat i * sz))
       \<and> (k = count \<or> \<not> sz < size_f (heap s ! p) - (cursor (heap s ! p) + k * sz))
       \<and> (size_f (heap s ! p) - cursor (heap s ! p) \<le> sz \<longrightarrow> k = 0)
       \<and> s' = upd_file s p ((heap s ! p)\<lparr>cursor := cursor (heap s ! p) + sz * k\<rparr>)
       \<and> length out = unat k * unat sz"
proof -
  let ?f = "heap s ! p"
  from ret valid have "fRead_loop s p sz count [] 0 = Inr (k, out, s')"
    by (simp add: fRead_def)
  from fRead_loop_Inr [OF this valid] obtain j where j:
    "j \<le> unat count" "k = of_nat j"
    "s' = upd_file s p (?f\<lparr>cursor := cursor ?f + of_nat j * sz\<rparr>)"
    "length out = j * unat sz"
    "\<forall>i<j. sz < size_f ?f - (cursor ?f + of_nat i * sz)"
    "j = unat count \<or> \<not> sz < size_f ?f - (cursor ?f + of_nat j * sz)"
    by auto
  have uk: "unat k = j" using j(1,2) by (simp add: le_unat_uoi)
  have "k \<le> count" using j(1) uk by (simp add: word_le_nat_alt)
  moreover have "\<forall>i<unat k. sz < size_f ?f - (cursor ?f + of_nat i * sz)"
    using j(5) uk by simp
  moreover have "k = count \<or> \<not> sz < size_f ?f - (cursor ?f + k * sz)"
    using j(6) j(2) by auto
  moreover have "size_f ?f - cursor ?f \<le> sz \<longrightarrow> k = 0"
  proof
    assume le: "size_f ?f - cursor ?f \<le> sz"
    have "j = 0"
    proof (rule ccontr)
      assume "j \<noteq> 0"
      with j(5) have "sz < size_f ?f - (cursor ?f + of_nat 0 * sz)" by blast
      with le show False by simp
    qed
    with j(2) show "k = 0" by simp
  qed
  moreover have "s' = upd_file s p (?f\<lparr>cursor := cursor ?f + sz * k\<rparr>)"
    using j(3) j(2) by (simp add: mult.commute)
  moreover have "length out = unat k * unat sz" using j(4) uk by simp
  ultimately show ?thesis by blast
qed

text \<open>
  On the 5-byte file of \<open>ex_a\<close>, at cursor 0: one element of 5 bytes is not read, one
  element of 4 bytes is.
\<close>

theorem fRead_boundary_exclusive_witness:
  "0 < length (heap ex_a) \<and> size_f (heap ex_a ! 0) - cursor (heap ex_a ! 0) = 5
   \<and> fRead ex_a 5 1 (Some 0) = Inr (0, [], ex_a)
   \<and> fRead ex_a 4 1 (Some 0) = Inr (1, ''hell'', ex_a4)
   \<and> ex_a4 = upd_file ex_a 0 ((heap ex_a ! 0)\<lparr>cursor := cursor (heap ex_a ! 0) + 4 * 1\<rparr>)
   \<and> length ''hell'' = unat (1 :: 32 word) * unat (4 :: 32 word)"
proof -
  have v: "0 < length (heap ex_a)" by (simp add: ex_a_def)
  have d: "size_f (heap ex_a ! 0) - cursor (heap ex_a ! 0) = 5" by (simp add: ex_a_def)
  from fRead_boundary_exclusive [OF v fRead_ex_a_4] fRead_boundary_exclusive [OF v fRead_ex_a_5]
    v d fRead_ex_a_4 fRead_ex_a_5
  show ?thesis by simp
qed

subsection \<open>Seeking\<close>

text \<open>
  Claim C6. For every valid handle, \<open>fSeek\<close> sets the cursor to \<open>offset\<close> for
  \<open>SEEK_SET\<close>, to \<open>cursor + offset\<close> for \<open>SEEK_CUR\<close> and to \<open>size - offset\<close> for
  \<open>SEEK_END\<close>, in the arithmetic of \<^verbatim>\<open>size_t\<close>, and returns 0 whatever the offset is:
  the new cursor is the result of the arithmetic, neither clamped nor rejected. An origin
  that the \<^verbatim>\<open>switch\<close> does not name changes nothing and returns 0 as well.
\<close>

theorem fSeek_arithmetic:
  assumes "p < length (heap s)"
  shows "fSeek s (Some p) offset SEEK_SET
           = Inr (0, upd_file s p ((heap s ! p)\<lparr>cursor := word_of_int offset\<rparr>))
       \<and> fSeek s (Some p) offset SEEK_CUR
           = Inr (0, upd_file s p ((heap s ! p)\<lparr>cursor := cursor (heap s ! p) + word_of_int offset\<rparr>))
       \<and> fSeek s (Some p) offset SEEK_END
           = Inr (0, upd_file s p ((heap s ! p)\<lparr>cursor := size_f (heap s ! p) - word_of_int offset\<rparr>))
       \<and> fSeek s (Some p) offset SEEK_other = Inr (0, s)"
  using assms by (simp add: fSeek_def Let_def)

text \<open>
  On the 10-byte file \<open>b\<close> of \<open>ex_b\<close>, seeking from the end gives cursor 10 for
  offset 0 and cursor 7 for offset 3.
\<close>

theorem fSeek_arithmetic_witness:
  "1 < length (heap ex_b) \<and> size_f (heap ex_b ! 1) = 10
   \<and> (\<exists>s'. fSeek ex_b (Some 1) 0 SEEK_END = Inr (0, s') \<and> cursor (heap s' ! 1) = 10)
   \<and> (\<exists>s'. fSeek ex_b (Some 1) 3 SEEK_END = Inr (0, s') \<and> cursor (heap s' ! 1) = 7)
   \<and> (\<exists>s'. fSeek ex_b (Some 1) 4 SEEK_SET = Inr (0, s') \<and> cursor (heap s' ! 1) = 4)
   \<and> (\<exists>s'. fSeek ex_a2 (Some 0) 1 SEEK_CUR = Inr (0, s') \<and> cursor (heap s' ! 0) = 3)"
proof -
  have v: "1 < length (heap ex_b)" "0 < length (heap ex_a2)" by (simp_all add: ex_b_def ex_a2_def)
  show ?thesis
    using fSeek_arithmetic [OF v(1), of 0] fSeek_arithmetic [OF v(1), of 3]
      fSeek_arithmetic [OF v(1), of 4] fSeek_arithmetic [OF v(2), of 1]
    by (simp add: upd_file_def ex_b_def ex_a2_def)
qed

text \<open>
  Claim C10. The cursor is an unsigned word. \<open>fSeek\<close> from the current position and
  from the end store the result of the arithmetic modulo \<open>2 ^ LENGTH('w)\<close>, whatever the
  sign and the size of the offset, so the position is never negative; and \<open>fRead\<close>
  compares \<open>size - cursor\<close>, taken modulo \<open>2 ^ LENGTH('w)\<close> as well, with the element
  size: it returns the count 0 exactly when \<open>count\<close> is 0 or that difference is at most the
  element size.
\<close>

theorem cursor_wraps:
  fixes s :: "'w::len word state"
  assumes valid: "p < length (heap s)"
  shows "(\<exists>s'. fSeek s (Some p) offset SEEK_CUR = Inr (0, s')
             \<and> uint (cursor (heap s' ! p))
                 = (uint (cursor (heap s ! p)) + offset) mod 2 ^ LENGTH('w)
             \<and> 0 \<le> uint (cursor (heap s' ! p)))
       \<and> (\<exists>s'. fSeek s (Some p) offset SEEK_END = Inr (0, s')
             \<and> uint (cursor (heap s' ! p))
                 = (uint (size_f (heap s ! p)) - offset) mod 2 ^ LENGTH('w)
             \<and> 0 \<le> uint (cursor (heap s' ! p)))
       \<and> ((\<exists>out s'. fRead s sz count (Some p) = Inr (0, out, s'))
            \<longleftrightarrow> count = 0
                \<or> (uint (size_f (heap s ! p)) - uint (cursor (heap s ! p))) mod 2 ^ LENGTH('w)
                    \<le> uint sz)"
proof -
  let ?f = "heap s ! p"
  have g: "(uint (size_f ?f) - uint (cursor ?f)) mod 2 ^ LENGTH('w) = uint (size_f ?f - cursor ?f)"
    by (simp add: uint_word_ariths)
  have rd: "(\<exists>out s'. fRead s sz count (Some p) = Inr (0, out, s'))
            \<longleftrightarrow> count = 0 \<or> \<not> sz < size_f ?f - cursor ?f"
  proof
    assume "\<exists>out s'. fRead s sz count (Some p) = Inr (0, out, s')"
    then obtain out s' where "fRead_loop s p sz count [] 0 = Inr (0, out, s')"
      using valid by (auto simp: fRead_def)
    from fRead_loop_Inr [OF this valid] obtain j where j:
      "j \<le> unat count" "(0 :: 'w word) = of_nat j"
      "j = unat count \<or> \<not> sz < size_f ?f - (cursor ?f + of_nat j * sz)"
      by auto
    from j(1,2) have "j = 0" using le_unat_uoi [of j count] by simp
    with j(3) show "count = 0 \<or> \<not> sz < size_f ?f - cursor ?f"
      by (auto simp: unat_eq_0)
  next
    assume "count = 0 \<or> \<not> sz < size_f ?f - cursor ?f"
    then have "fRead s sz count (Some p) = Inr (0, [], s)"
      using valid by (auto simp: fRead_def fRead_loop.simps [of s p sz count] Let_def)
    then show "\<exists>out s'. fRead s sz count (Some p) = Inr (0, out, s')" by blast
  qed
  have cur: "fSeek s (Some p) offset SEEK_CUR
               = Inr (0, upd_file s p (?f\<lparr>cursor := cursor ?f + word_of_int offset\<rparr>))"
    and en: "fSeek s (Some p) offset SEEK_END
               = Inr (0, upd_file s p (?f\<lparr>cursor := size_f ?f - word_of_int offset\<rparr>))"
    using valid by (simp_all add: fSeek_def Let_def)
  have le: "(\<not> sz < size_f ?f - cursor ?f) \<longleftrightarrow> uint (size_f ?f - cursor ?f) \<le> uint sz"
    by (simp add: word_less_def not_less)
  show ?thesis
    unfolding cur en rd g le using valid
    by (simp add: heap_upd_file uint_plus_woi uint_minus_woi)
qed

text \<open>
  With 32 bits: from cursor 2 a seek by -3, and on the 5-byte file a seek to 6 before the
  end, both give the cursor \<open>2 ^ 32 - 1\<close>. There \<open>size - cursor\<close> is 6: a read of one
  element of 6 bytes returns 0, a read of one element of 5 bytes passes the test and reads
  beyond the array.
\<close>

theorem cursor_wraps_witness:
  "0 < length (heap ex_a2) \<and> 0 < length (heap ex_a) \<and> 0 < length (heap ex_wild)
   \<and> fSeek ex_a2 (Some 0) (- 3) SEEK_CUR = Inr (0, ex_wild)
   \<and> fSeek ex_a (Some 0) 6 SEEK_END = Inr (0, ex_wild)
   \<and> uint (cursor (heap ex_wild ! 0)) = (2 - 3) mod 2 ^ 32
   \<and> uint (cursor (heap ex_wild ! 0)) = 4294967295
   \<and> (uint (size_f (heap ex_wild ! 0)) - uint (cursor (heap ex_wild ! 0))) mod 2 ^ 32 = 6
   \<and> fRead ex_wild 6 1 (Some 0) = Inr (0, [], ex_wild)
   \<and> fRead ex_wild 5 1 (Some 0) = Inl OutOfBounds"
proof -
  have v: "0 < length (heap ex_a2)" "0 < length (heap ex_a)" "0 < length (heap ex_wild)"
    by (simp_all add: ex_a2_def ex_a_def ex_wild_def)
  have s1: "fSeek ex_a2 (Some 0) (- 3) SEEK_CUR = Inr (0, ex_wild)"
    by (simp add: ex_a2_def ex_wild_def fSeek_def upd_file_def Let_def)
  have s2: "fSeek ex_a (Some 0) 6 SEEK_END = Inr (0, ex_wild)"
    by (simp add: ex_a_def ex_wild_def fSeek_def upd_file_def Let_def)
  have c: "cursor (heap ex_a2 ! 0) = 2" "size_f (heap ex_wild ! 0) = 5"
     "cursor (heap ex_wild ! 0) = 4294967295"
    by (simp_all add: ex_a2_def ex_wild_def)
  from cursor_wraps [OF v(1), of "- 3" 6 1] cursor_wraps [OF v(3), of 0 6 1]
    v s1 s2 c fRead_ex_wild_6 fRead_ex_wild_5
  show ?thesis by simp
qed

subsection \<open>Null handles\<close>

text \<open>
  Claim C8. With a null handle, \<open>fTell\<close> returns 0, \<open>fRead\<close> returns
  \<^verbatim>\<open>(size_t)-1\<close>, which is not 0, \<open>fRewind\<close> returns without doing anything and
  \<open>fClose\<close> returns the error code -1; the store is the same afterwards.
\<close>

theorem null_handle_defaults:
  "fTell s None = Inr 0
   \<and> fRead s sz count None = Inr (- 1, [], s) \<and> (- 1 :: 'w::len word) \<noteq> 0
   \<and> fRewind s None = Inr s
   \<and> fClose s None = Inr (- 1, s) \<and> (- 1 :: int) \<noteq> 0"
  for s :: "'w::len word state"
  by (simp add: fTell_def fRead_def fRewind_def fClose_def)

text \<open>
  Claim C9 says that every stream operation, \<open>fSeek\<close> included, takes a safe default
  path on a null handle. \<open>fSeek\<close> has no null check: with any of the three origins of
  its \<^verbatim>\<open>switch\<close> it dereferences the null handle.
\<close>

theorem fSeek_null_deref:
  "fSeek s None offset SEEK_SET = Inl NullDeref
   \<and> fSeek s None offset SEEK_CUR = Inl NullDeref
   \<and> fSeek s None offset SEEK_END = Inl NullDeref"
  by (simp add: fSeek_def)

end
